theory Spec2Isabelle
  imports
    Main
    "HOL-Library.Word"
    "HOL-Library.Signed_Division"
    "HOL-Library.Finite_Map"
    "HOL-Library.Multiset"
    "HOL-Library.Product_Lexorder"
begin

section \<open>The report of the load tester: commands/print.go\<close>

text \<open>
  The file embeds \<open>commands/print.go\<close>: the collector \<open>finalize\<close>, which drains
  the channel of results into a \<open>Report\<close>, and the reporter \<open>print\<close> with its helpers.

  Conventions of the embedding.
  \<^item> A \<open>float64\<close> is its exact rational value or one of the IEEE special values. The
    rounding of finite results is not modelled; division by zero, the arithmetic of the
    infinities and the comparisons with NaN are. The sign of a zero is not kept: the only
    zero divisors the code can meet are \<open>Total.Seconds()\<close> and \<open>float64(len(r.Lats))\<close>,
    both \<open>+0\<close>.
  \<^item> The channel \<open>r.results\<close> is the list of the results buffered in it when \<open>finalize\<close>
    runs, oldest first; every producer has finished, and no result is a nil pointer.
  \<^item> The text written to standard output is the list of the calls of \<open>fmt.Printf\<close>, each
    with its format string and its arguments; the rendering of a verb by package \<open>fmt\<close> is
    not modelled.
  \<^item> The order in which \<open>range\<close> visits the keys of a Go map is not specified. The
    functions that range over a map take that order as an argument: a list of keys.
  \<^item> \<open>int\<close> counters and lengths are unbounded (\<open>nat\<close>, \<open>int\<close>): they count results held
    in memory. \<open>int64\<close> byte counts and \<open>time.Duration\<close> are 64-bit words read as signed.
\<close>

subsection \<open>float64\<close>

datatype float64 = Fin rat | PInf | NInf | NaN

fun fneg :: "float64 \<Rightarrow> float64" where
  "fneg (Fin a) = Fin (- a)"
| "fneg PInf = NInf"
| "fneg NInf = PInf"
| "fneg NaN = NaN"

fun fadd :: "float64 \<Rightarrow> float64 \<Rightarrow> float64" where
  "fadd NaN _ = NaN"
| "fadd _ NaN = NaN"
| "fadd (Fin a) (Fin b) = Fin (a + b)"
| "fadd PInf NInf = NaN"
| "fadd NInf PInf = NaN"
| "fadd PInf _ = PInf"
| "fadd _ PInf = PInf"
| "fadd NInf _ = NInf"
| "fadd _ NInf = NInf"

definition fsub :: "float64 \<Rightarrow> float64 \<Rightarrow> float64" where
  "fsub a b = fadd a (fneg b)"

fun fmul :: "float64 \<Rightarrow> float64 \<Rightarrow> float64" where
  "fmul NaN _ = NaN"
| "fmul _ NaN = NaN"
| "fmul (Fin a) (Fin b) = Fin (a * b)"
| "fmul (Fin a) PInf = (if a = 0 then NaN else if 0 < a then PInf else NInf)"
| "fmul (Fin a) NInf = (if a = 0 then NaN else if 0 < a then NInf else PInf)"
| "fmul PInf (Fin b) = (if b = 0 then NaN else if 0 < b then PInf else NInf)"
| "fmul NInf (Fin b) = (if b = 0 then NaN else if 0 < b then NInf else PInf)"
| "fmul PInf PInf = PInf"
| "fmul NInf NInf = PInf"
| "fmul PInf NInf = NInf"
| "fmul NInf PInf = NInf"

fun fdiv :: "float64 \<Rightarrow> float64 \<Rightarrow> float64" where
  "fdiv NaN _ = NaN"
| "fdiv _ NaN = NaN"
| "fdiv (Fin a) (Fin b) =
     (if b = 0 then (if a = 0 then NaN else if 0 < a then PInf else NInf)
      else Fin (a / b))"
| "fdiv (Fin a) PInf = Fin 0"
| "fdiv (Fin a) NInf = Fin 0"
| "fdiv PInf (Fin b) = (if 0 \<le> b then PInf else NInf)"
| "fdiv NInf (Fin b) = (if 0 \<le> b then NInf else PInf)"
| "fdiv PInf _ = NaN"
| "fdiv NInf _ = NaN"

text \<open>Go's \<open><=\<close> and \<open>>\<close> on \<open>float64\<close>: every comparison with NaN is false.\<close>

fun fle :: "float64 \<Rightarrow> float64 \<Rightarrow> bool" where
  "fle NaN _ = False"
| "fle _ NaN = False"
| "fle (Fin a) (Fin b) = (a \<le> b)"
| "fle NInf _ = True"
| "fle _ PInf = True"
| "fle PInf _ = False"
| "fle _ NInf = False"

fun fgt :: "float64 \<Rightarrow> float64 \<Rightarrow> bool" where
  "fgt NaN _ = False"
| "fgt _ NaN = False"
| "fgt (Fin a) (Fin b) = (b < a)"
| "fgt PInf PInf = False"
| "fgt PInf _ = True"
| "fgt NInf _ = False"
| "fgt _ NInf = True"
| "fgt _ PInf = False"

text \<open>
  \<open>sort.Float64s\<close> of the standard library sorts in increasing order and puts the NaN
  values before all others. \<open>f64_key\<close> is that order; two values with the same key are the
  same value, so the sorted slice does not depend on the algorithm.
\<close>

fun f64_key :: "float64 \<Rightarrow> nat \<times> rat" where
  "f64_key NaN = (0, 0)"
| "f64_key NInf = (1, 0)"
| "f64_key (Fin a) = (2, a)"
| "f64_key PInf = (3, 0)"

definition Float64s :: "float64 list \<Rightarrow> float64 list" where
  "Float64s xs = sort_key f64_key xs"

text \<open>\<open>time.Duration\<close> counts nanoseconds in an \<open>int64\<close>; \<open>Seconds\<close> is \<open>d.Seconds()\<close>.\<close>

definition Seconds :: "64 word \<Rightarrow> float64" where
  "Seconds d = Fin (of_int (sint d) / 1000000000)"

subsection \<open>Results and the report\<close>

text \<open>
  Modelled from the spec: the struct \<open>result\<close> is declared in another file of the
  package. Its fields are the ones \<open>finalize\<close> reads: \<open>err\<close> (\<open>None\<close> for a nil error,
  otherwise the text of \<open>err.Error()\<close>), \<open>statusCode\<close>, \<open>duration\<close> and \<open>contentLength\<close>.
\<close>

record result =
  err :: "string option"
  statusCode :: int
  duration :: "64 word"
  contentLength :: "64 word"

record Report =
  AvgTotal :: float64
  Fastest :: float64
  Slowest :: float64
  Average :: float64
  RPS :: float64
  SuccessRPS :: float64
  results :: "result list"
  Total :: "64 word"
  StatusCodeDist :: "(int, int) fmap"
  Lats :: "float64 list"
  Errors :: "(string, int) fmap"
  SizeTotal :: "64 word"
  output' :: string

text \<open>The calls of \<open>fmt.Printf\<close>.\<close>

datatype arg = AInt int | AFloat float64 | AStr string

datatype out = Printf string "arg list"

definition newReport :: "int \<Rightarrow> result list \<Rightarrow> string \<Rightarrow> Report" where
  "newReport sz rs outp =
     \<lparr> AvgTotal = Fin 0, Fastest = Fin 0, Slowest = Fin 0, Average = Fin 0,
       RPS = Fin 0, SuccessRPS = Fin 0,
       results = rs, Total = 0,
       StatusCodeDist = fmempty, Lats = [], Errors = fmempty, SizeTotal = 0,
       output' = outp \<rparr>"

text \<open>\<open>m[k]\<close> reads 0 at a key that is not in the map; \<open>m[k]++\<close> stores the successor.\<close>

definition lookup0 :: "('k, int) fmap \<Rightarrow> 'k \<Rightarrow> int" where
  "lookup0 m k = (case fmlookup m k of None \<Rightarrow> 0 | Some n \<Rightarrow> n)"

definition incr :: "'k \<Rightarrow> ('k, int) fmap \<Rightarrow> ('k, int) fmap" where
  "incr k m = fmupd k (lookup0 m k + 1) m"

text \<open>The sum of the counts of a map, and \<open>len(m)\<close>.\<close>

definition total_count :: "('k, int) fmap \<Rightarrow> int" where
  "total_count m = sum (lookup0 m) (fset (fmdom m))"

definition len_map :: "('k, 'v) fmap \<Rightarrow> nat" where
  "len_map m = fcard (fmdom m)"

subsection \<open>The collector\<close>

text \<open>
  One turn of the \<open>select\<close> of \<open>finalize\<close> with a result received: lines 61 to 73. The
  local variable \<open>successCnt\<close> is carried beside the report.
\<close>

definition receive :: "result \<Rightarrow> Report \<times> int \<Rightarrow> Report \<times> int" where
  "receive res st =
     (let (r, successCnt) = st in
      case err res of
        Some e \<Rightarrow> (r\<lparr>Errors := incr e (Errors r)\<rparr>, successCnt)
      | None \<Rightarrow>
          (let r1 = r\<lparr>Lats := Lats r @ [Seconds (duration res)]\<rparr>;
               r2 = r1\<lparr>AvgTotal := fadd (AvgTotal r1) (Seconds (duration res))\<rparr>;
               r3 = r2\<lparr>StatusCodeDist := incr (statusCode res) (StatusCodeDist r2)\<rparr>;
               r4 = (if 0 <s contentLength res
                     then r3\<lparr>SizeTotal := SizeTotal r3 + contentLength res\<rparr> else r3)
           in (r4, if 200 \<le> statusCode res \<and> statusCode res < 300
                   then successCnt + 1 else successCnt)))"

text \<open>
  The loop of \<open>finalize\<close> while the channel has a result: each turn takes the oldest one.
  The loop ends at the \<open>default\<close> case, when the channel is empty.
\<close>

fun drain :: "result list \<Rightarrow> Report \<times> int \<Rightarrow> Report \<times> int" where
  "drain [] st = st"
| "drain (res # rest) st = drain rest (receive res st)"

text \<open>The \<open>default\<close> case of \<open>finalize\<close> up to the call of \<open>print\<close>: lines 75 to 78.\<close>

definition derive :: "64 word \<Rightarrow> Report \<times> int \<Rightarrow> Report" where
  "derive tot st =
     (let (r, successCnt) = st;
          r1 = r\<lparr>results := [], Total := tot\<rparr>;
          r2 = r1\<lparr>RPS := fdiv (Fin (of_nat (length (Lats r1)))) (Seconds (Total r1))\<rparr>;
          r3 = r2\<lparr>SuccessRPS := fdiv (Fin (of_int successCnt)) (Seconds (Total r2))\<rparr>
      in r3\<lparr>Average := fdiv (AvgTotal r3) (Fin (of_nat (length (Lats r3))))\<rparr>)"

text \<open>The report and \<open>successCnt\<close> when the channel is drained, and at the call of \<open>print\<close>.\<close>

definition collected :: "Report \<Rightarrow> Report \<times> int" where
  "collected r = drain (results r) (r, 0)"

definition collect :: "64 word \<Rightarrow> Report \<Rightarrow> Report" where
  "collect tot r = derive tot (collected r)"

subsection \<open>The reporter\<close>

definition tab :: string where
  "tab = [CHR 0x09]"

text \<open>The constant \<open>barChar\<close>, as the bytes of the source file.\<close>

definition barChar :: string where
  "barChar = [CHR 0xC3, CHR 0xA2, CHR 0xCB, CHR 0x86, CHR 0xC5, CHR 0xBD]"

definition csv_fmt :: string where
  "csv_fmt = ''%v,%4.4f\<newline>''"

definition printCSV :: "Report \<Rightarrow> out list" where
  "printCSV r =
     map (\<lambda>i. Printf csv_fmt [AInt (int i + 1), AFloat (Lats r ! i)]) [0..<length (Lats r)]"

text \<open>
  The first loop of \<open>printLatencies\<close>, from the state \<open>(i, j, data)\<close>. It returns the
  state in which it stops: the slice \<open>data\<close> and the index \<open>j\<close> of the next target.
\<close>

definition pctls :: "nat list" where
  "pctls = [10, 25, 50, 75, 90, 95, 99]"

function pct_loop :: "float64 list \<Rightarrow> nat \<Rightarrow> nat \<Rightarrow> float64 list \<Rightarrow> float64 list \<times> nat" where
  "pct_loop lats i j data =
     (if i < length lats \<and> j < length pctls then
        (let current = i * 100 div length lats in
         if pctls ! j \<le> current then pct_loop lats (i + 1) (j + 1) (data[j := lats ! i])
         else pct_loop lats (i + 1) j data)
      else (data, j))"
  by pat_completeness auto
termination
  by (relation "measure (\<lambda>(lats, i, j, data). length lats - i)") auto

definition percentiles :: "float64 list \<Rightarrow> float64 list \<times> nat" where
  "percentiles lats = pct_loop lats 0 0 (replicate (length pctls) (Fin 0))"

definition pct_fmt :: string where
  "pct_fmt = ''  %v%% in %4.4f secs.\<newline>''"

definition printLatencies :: "Report \<Rightarrow> out list" where
  "printLatencies r =
     (let data = fst (percentiles (Lats r)) in
      Printf ''\<newline>Latency distribution:\<newline>'' [] #
      concat (map (\<lambda>i. if fgt (data ! i) (Fin 0)
                        then [Printf pct_fmt [AInt (int (pctls ! i)), AFloat (data ! i)]]
                        else [])
                [0..<length pctls]))"

text \<open>The edges of the histogram: lines 145 to 152 of \<open>printHistogram\<close>.\<close>

definition hist_buckets :: "float64 \<Rightarrow> float64 \<Rightarrow> float64 list" where
  "hist_buckets fastest slowest =
     (let bc = 10;
          bs = fdiv (fsub slowest fastest) (Fin (of_nat bc))
      in map (\<lambda>i. fadd fastest (fmul bs (Fin (of_nat i)))) [0..<bc] @ [slowest])"

text \<open>
  The second loop of \<open>printHistogram\<close>, lines 155 to 165, from the state
  \<open>(i, bi, counts, max)\<close>. A turn that neither takes a sample nor moves the cursor leaves
  the state as it is, and the loop runs forever: the value is \<open>None\<close>.
\<close>

partial_function (option) hist_loop ::
  "float64 list \<Rightarrow> float64 list \<Rightarrow> nat \<Rightarrow> nat \<Rightarrow> nat list \<Rightarrow> nat \<Rightarrow> (nat list \<times> nat) option"
where
  "hist_loop lats buckets i bi counts mx =
     (if i < length lats then
        (if fle (lats ! i) (buckets ! bi) then
           (let counts1 = counts[bi := counts ! bi + 1];
                mx1 = (if mx < counts1 ! bi then counts1 ! bi else mx)
            in hist_loop lats buckets (i + 1) bi counts1 mx1)
         else if bi < length buckets - 1 then hist_loop lats buckets i (bi + 1) counts mx
         else hist_loop lats buckets i bi counts mx)
      else Some (counts, mx))"

definition histogram :: "Report \<Rightarrow> (float64 list \<times> nat list \<times> nat) option" where
  "histogram r =
     (let buckets = hist_buckets (Fastest r) (Slowest r) in
      case hist_loop (Lats r) buckets 0 0 (replicate (length buckets) 0) 0 of
        None \<Rightarrow> None
      | Some (counts, mx) \<Rightarrow> Some (buckets, counts, mx))"

definition hist_fmt :: string where
  "hist_fmt = ''  %4.3f [%v]'' @ tab @ ''|%v\<newline>''"

definition printHistogram :: "Report \<Rightarrow> out list option" where
  "printHistogram r =
     (case histogram r of
        None \<Rightarrow> None
      | Some (buckets, counts, mx) \<Rightarrow>
          Some (Printf ''\<newline>Response time histogram:\<newline>'' [] #
                map (\<lambda>i. let barLen = (if 0 < mx then counts ! i * 40 div mx else 0)
                          in Printf hist_fmt
                               [AFloat (buckets ! i), AInt (int (counts ! i)),
                                AStr (concat (replicate barLen barChar))])
                  [0..<length buckets]))"

definition code_fmt :: string where
  "code_fmt = ''  [%d]'' @ tab @ ''%d responses\<newline>''"

definition printStatusCodes :: "int list \<Rightarrow> Report \<Rightarrow> out list" where
  "printStatusCodes kc r =
     Printf ''\<newline>Status code distribution:\<newline>'' [] #
     map (\<lambda>code. Printf code_fmt [AInt code, AInt (lookup0 (StatusCodeDist r) code)]) kc"

definition error_fmt :: string where
  "error_fmt = ''  [%d]'' @ tab @ ''%s\<newline>''"

definition printErrors :: "string list \<Rightarrow> Report \<Rightarrow> out list" where
  "printErrors ke r =
     Printf ''\<newline>Error distribution:\<newline>'' [] #
     map (\<lambda>e. Printf error_fmt [AInt (lookup0 (Errors r) e), AStr e]) ke"

text \<open>The lines that \<open>print\<close> itself writes: lines 97 to 106.\<close>

definition rps_fmt :: string where
  "rps_fmt = ''  Requests/sec:'' @ tab @ ''%4.4f\<newline>''"

definition summary :: "Report \<Rightarrow> out list" where
  "summary r =
     [Printf ''\<newline>Summary:\<newline>'' [],
      Printf (''  Total:'' @ tab @ ''%4.4f secs.\<newline>'') [AFloat (Seconds (Total r))],
      Printf (''  Slowest:'' @ tab @ ''%4.4f secs.\<newline>'') [AFloat (Slowest r)],
      Printf (''  Fastest:'' @ tab @ ''%4.4f secs.\<newline>'') [AFloat (Fastest r)],
      Printf (''  Average:'' @ tab @ ''%4.4f secs.\<newline>'') [AFloat (Average r)],
      Printf rps_fmt [AFloat (RPS r)]] @
     (if 0 <s SizeTotal r then
        [Printf (''  Total Data Recieved:'' @ tab @ ''%d bytes.\<newline>'')
           [AInt (sint (SizeTotal r))],
         Printf (''  Response Size per Request:'' @ tab @ ''%d bytes.\<newline>'')
           [AInt (sint (word_of_int
              (sint (SizeTotal r) sdiv sint (word_of_nat (length (Lats r)) :: 64 word)) :: 64 word))]]
      else [])"

text \<open>Line 86 of \<open>print\<close>, and lines 94 and 95.\<close>

definition sort_lats :: "Report \<Rightarrow> Report" where
  "sort_lats r = r\<lparr>Lats := Float64s (Lats r)\<rparr>"

definition set_extremes :: "Report \<Rightarrow> Report" where
  "set_extremes r =
     (let r1 = r\<lparr>Fastest := Lats r ! 0\<rparr>
      in r1\<lparr>Slowest := Lats r1 ! (length (Lats r1) - 1)\<rparr>)"

text \<open>
  \<open>print\<close> returns the report as it leaves it (the latencies sorted, \<open>Fastest\<close> and
  \<open>Slowest\<close> set) and what it wrote; \<open>kc\<close> and \<open>ke\<close> are the orders in which \<open>range\<close>
  visits the status codes and the error descriptions. The value is \<open>None\<close> when the loop
  of \<open>printHistogram\<close> does not end.
\<close>

definition print :: "int list \<Rightarrow> string list \<Rightarrow> Report \<Rightarrow> (Report \<times> out list) option" where
  "print kc ke r =
     (let r1 = sort_lats r in
      if output' r1 = ''csv'' then Some (r1, printCSV r1)
      else
        (case (if 0 < length (Lats r1) then
                 (let r2 = set_extremes r1
                  in if output' r2 \<noteq> ''quiet'' then
                       (case printHistogram r2 of
                          None \<Rightarrow> None
                        | Some h \<Rightarrow>
                            Some (r2, summary r2 @ printStatusCodes kc r2 @ h @ printLatencies r2))
                     else Some (r2, []))
               else Some (r1, []))
         of None \<Rightarrow> None
          | Some (r3, o1) \<Rightarrow>
              Some (r3, o1 @ (if 0 < len_map (Errors r3) then printErrors ke r3 else []))))"

definition finalize :: "int list \<Rightarrow> string list \<Rightarrow> 64 word \<Rightarrow> Report \<Rightarrow> (Report \<times> out list) option" where
  "finalize kc ke tot r = print kc ke (collect tot r)"

section \<open>Properties of the collector\<close>

lemma total_count_empty: "total_count fmempty = 0"
  by (simp add: total_count_def)

lemma total_count_incr: "total_count (incr k m) = total_count m + 1"
proof (cases "k |\<in>| fmdom m")
  case True
  then have d: "fmdom (incr k m) = fmdom m"
    by (auto simp: incr_def)
  have "sum (lookup0 (incr k m)) (fset (fmdom m))
      = sum (\<lambda>x. lookup0 m x + (if x = k then 1 else 0)) (fset (fmdom m))"
    by (rule sum.cong) (auto simp: incr_def lookup0_def)
  also have "\<dots> = sum (lookup0 m) (fset (fmdom m)) + 1"
    using True by (simp add: sum.distrib)
  finally show ?thesis
    by (simp add: total_count_def d)
next
  case False
  then have l: "lookup0 m k = 0"
    by (simp add: lookup0_def fmdom_notD)
  have "sum (lookup0 (incr k m)) (fset (fmdom m)) = sum (lookup0 m) (fset (fmdom m))"
    using False by (intro sum.cong) (auto simp: incr_def lookup0_def)
  then show ?thesis
    using False l by (simp add: total_count_def incr_def) (simp add: lookup0_def)
qed

lemma length_filter_split:
  "length (filter P xs) + length (filter (\<lambda>x. \<not> P x) xs) = length xs"
  by (induction xs) auto

lemma receive_lats:
  "length (Lats (fst (receive res st)))
     = length (Lats (fst st)) + (if err res = None then 1 else 0)"
  by (cases st) (simp add: receive_def Let_def split: option.splits)

lemma drain_lats:
  "length (Lats (fst (drain rs st)))
     = length (Lats (fst st)) + length (filter (\<lambda>res. err res = None) rs)"
  by (induction rs arbitrary: st) (simp_all add: receive_lats)

lemma receive_errors:
  "total_count (Errors (fst (receive res st)))
     = total_count (Errors (fst st)) + (if err res = None then 0 else 1)"
  by (cases st) (simp add: receive_def Let_def total_count_incr split: option.splits)

lemma drain_errors:
  "total_count (Errors (fst (drain rs st)))
     = total_count (Errors (fst st)) + int (length (filter (\<lambda>res. err res \<noteq> None) rs))"
  by (induction rs arbitrary: st) (simp_all add: receive_errors)

lemma receive_success:
  "snd (receive res st)
     = snd st + (if err res = None \<and> 200 \<le> statusCode res \<and> statusCode res < 300
                 then 1 else 0)"
  by (cases st) (simp add: receive_def Let_def split: option.splits)

lemma drain_success:
  "snd (drain rs st)
     = snd st + int (length (filter (\<lambda>res. err res = None \<and> 200 \<le> statusCode res
                                          \<and> statusCode res < 300) rs))"
  by (induction rs arbitrary: st) (simp_all add: receive_success)

text \<open>
  Claim C2, as the spec states it: \<open>successCnt\<close> plus the sum of the error counts is the
  number of results processed. It fails for a single result without error whose status
  code is 404: the result is counted neither as a success nor as an error.
\<close>

theorem success_plus_errors_counterexample:
  "snd (collected (newReport 1
      [\<lparr>err = None, statusCode = 404, duration = 50000000, contentLength = 0\<rparr>] []))
   + total_count (Errors (fst (collected (newReport 1
      [\<lparr>err = None, statusCode = 404, duration = 50000000, contentLength = 0\<rparr>] []))))
   \<noteq> int (length
      [\<lparr>err = None, statusCode = 404, duration = 50000000, contentLength = 0\<rparr>])"
  by (simp add: collected_def newReport_def receive_def total_count_def)

text \<open>
  Claim C2, amended: for every stream of results drained into a new report, \<open>successCnt\<close>
  plus the sum of the error counts plus the number of results that carry no error and
  have a status code outside [200, 300) is the number of results processed.
\<close>

theorem success_errors_others_total:
  "snd (collected (newReport sz rs outp))
     + total_count (Errors (fst (collected (newReport sz rs outp))))
     + int (length (filter (\<lambda>res. err res = None
                              \<and> \<not> (200 \<le> statusCode res \<and> statusCode res < 300)) rs))
   = int (length rs)"
proof -
  let ?ok = "\<lambda>res. err res = None"
  let ?s = "\<lambda>res. 200 \<le> statusCode res \<and> statusCode res < 300"
  have a: "length (filter (\<lambda>res. ?ok res \<and> ?s res) rs)
         + length (filter (\<lambda>res. ?ok res \<and> \<not> ?s res) rs) = length (filter ?ok rs)"
    using length_filter_split[of ?s "filter ?ok rs"] by (simp add: conj_commute)
  have b: "length (filter ?ok rs) + length (filter (\<lambda>res. err res \<noteq> None) rs) = length rs"
    using length_filter_split[of ?ok rs] by simp
  show ?thesis
    using a b
    by (simp add: collected_def drain_success drain_errors newReport_def total_count_empty)
qed

theorem success_errors_others_total_witness:
  "snd (collected (newReport 3
      [\<lparr>err = None, statusCode = 200, duration = 50000000, contentLength = 100\<rparr>,
       \<lparr>err = Some ''timeout'', statusCode = 0, duration = 0, contentLength = 0\<rparr>,
       \<lparr>err = None, statusCode = 404, duration = 70000000, contentLength = 0\<rparr>] [])) = 1
   \<and> total_count (Errors (fst (collected (newReport 3
      [\<lparr>err = None, statusCode = 200, duration = 50000000, contentLength = 100\<rparr>,
       \<lparr>err = Some ''timeout'', statusCode = 0, duration = 0, contentLength = 0\<rparr>,
       \<lparr>err = None, statusCode = 404, duration = 70000000, contentLength = 0\<rparr>] [])))) = 1"
  using success_errors_others_total [of 3
      "[\<lparr>err = None, statusCode = 200, duration = 50000000, contentLength = 100\<rparr>,
        \<lparr>err = Some ''timeout'', statusCode = 0, duration = 0, contentLength = 0\<rparr>,
        \<lparr>err = None, statusCode = 404, duration = 70000000, contentLength = 0\<rparr>]" "[]"]
  by (simp add: collected_def newReport_def receive_def total_count_def incr_def lookup0_def
      word_sless_alt)

text \<open>
  Claim C7: for every stream of results drained into a new report, the length of \<open>Lats\<close>
  after the drain is the number of results that carry no error, in whatever order the
  same results arrive.
\<close>

theorem latencies_length_any_order:
  assumes "mset rs' = mset rs"
  shows "length (Lats (fst (collected (newReport sz rs' outp))))
           = length (filter (\<lambda>res. err res = None) rs)"
proof -
  have "length (filter (\<lambda>res. err res = None) rs')
      = length (filter (\<lambda>res. err res = None) rs)"
    using assms by (metis mset_filter size_mset)
  then show ?thesis
    by (simp add: collected_def drain_lats newReport_def)
qed

theorem latencies_length_any_order_witness:
  "mset [\<lparr>err = Some ''timeout'', statusCode = 0, duration = 0, contentLength = 0\<rparr>,
         \<lparr>err = None, statusCode = 200, duration = 50000000, contentLength = 100\<rparr>]
     = mset [\<lparr>err = None, statusCode = 200, duration = 50000000, contentLength = 100\<rparr>,
             \<lparr>err = Some ''timeout'', statusCode = 0, duration = 0, contentLength = 0\<rparr>]
   \<and> length (Lats (fst (collected (newReport 2
        [\<lparr>err = Some ''timeout'', statusCode = 0, duration = 0, contentLength = 0\<rparr>,
         \<lparr>err = None, statusCode = 200, duration = 50000000, contentLength = 100\<rparr>] [])))) = 1"
proof -
  have h: "mset [\<lparr>err = Some ''timeout'', statusCode = 0, duration = 0, contentLength = 0\<rparr>,
         \<lparr>err = None, statusCode = 200, duration = 50000000, contentLength = 100\<rparr>]
     = mset [\<lparr>err = None, statusCode = 200, duration = 50000000, contentLength = 100\<rparr>,
             \<lparr>err = Some ''timeout'', statusCode = 0, duration = 0, contentLength = 0\<rparr>]"
    by simp
  show ?thesis
    using h latencies_length_any_order [OF h, of 2 "[]"] by simp
qed

section \<open>Properties of the percentiles\<close>

declare pct_loop.simps [simp del]

lemma length_pctls: "length pctls = 7"
  by (simp add: pctls_def)

lemma distinct_pctls: "distinct pctls"
  by (simp add: pctls_def)

lemma pctls_last: "j < 7 \<Longrightarrow> pctls ! j \<le> 98 \<Longrightarrow> j < 6"
proof -
  assume a: "j < 7" "pctls ! j \<le> 98"
  have "pctls ! 6 = 99" by (simp add: pctls_def)
  then have "j \<noteq> 6" using a(2) by auto
  then show ?thesis using a(1) by simp
qed

lemma rank_below_99:
  assumes "i < n" and "n < (100::nat)"
  shows "i * 100 div n \<le> 98"
proof -
  have "i * 100 < 99 * n" using assms by simp
  then have "i * 100 div n < 99" by (rule less_mult_imp_div_less)
  then show ?thesis by simp
qed

lemma pct_loop_length: "length (fst (pct_loop lats i j data)) = length data"
proof (induction lats i j data rule: pct_loop.induct)
  case (1 lats i j data)
  show ?case
    using "1.IH" by (subst pct_loop.simps) (simp add: Let_def)
qed

lemma pct_loop_last_target:
  assumes "length lats < 100" and "j \<le> 6"
  shows "snd (pct_loop lats i j data) \<le> 6 \<and> fst (pct_loop lats i j data) ! 6 = data ! 6"
  using assms
proof (induction lats i j data rule: pct_loop.induct)
  case (1 lats i j data)
  show ?case
  proof (cases "i < length lats \<and> j < length pctls")
    case False
    then show ?thesis
      using "1.prems" by (subst (1 2) pct_loop.simps) auto
  next
    case run: True
    define current where "current = i * 100 div length lats"
    have cur: "current \<le> 98"
      using run "1.prems"(1) by (simp add: current_def rank_below_99)
    show ?thesis
    proof (cases "pctls ! j \<le> current")
      case True
      then have j: "j < 6"
        using cur run pctls_last[of j] by (simp add: length_pctls)
      have "snd (pct_loop lats (i + 1) (j + 1) (data[j := lats ! i])) \<le> 6
          \<and> fst (pct_loop lats (i + 1) (j + 1) (data[j := lats ! i])) ! 6
              = (data[j := lats ! i]) ! 6"
        using run True j "1.prems"(1) by (intro "1.IH"(1)) (simp_all add: current_def)
      moreover have "pct_loop lats i j data
          = pct_loop lats (i + 1) (j + 1) (data[j := lats ! i])"
        using run True by (subst pct_loop.simps) (simp add: current_def Let_def)
      ultimately show ?thesis using j by simp
    next
      case False
      have "snd (pct_loop lats (i + 1) j data) \<le> 6
          \<and> fst (pct_loop lats (i + 1) j data) ! 6 = data ! 6"
        using run False "1.prems" by (intro "1.IH"(2)) (simp_all add: current_def)
      moreover have "pct_loop lats i j data = pct_loop lats (i + 1) j data"
        using run False by (subst pct_loop.simps) (simp add: current_def Let_def)
      ultimately show ?thesis by simp
    qed
  qed
qed

lemma in_printLatencies:
  "Printf pct_fmt [AInt p, AFloat v] \<in> set (printLatencies r)
     \<longleftrightarrow> (\<exists>i<length pctls. p = int (pctls ! i) \<and> v = fst (percentiles (Lats r)) ! i
              \<and> fgt v (Fin 0))"
  by (auto simp: printLatencies_def Let_def pct_fmt_def split: if_splits)

text \<open>
  Claim C1, as the spec states it: for the latencies 0.1, 0.2, 0.3, 0.4, 0.5 the value
  recorded for the 50th percentile, the third target, is 0.3. The loop records 0.4.
\<close>

theorem percentile_50_counterexample:
  "pctls ! 2 = 50 \<and>
   fst (percentiles [Fin (1/10), Fin (2/10), Fin (3/10), Fin (4/10), Fin (5/10)]) ! 2
     \<noteq> Fin (3/10)"
  by (simp add: pctls_def percentiles_def pct_loop.simps)

text \<open>
  Claim C1, amended: for the latencies 0.1, 0.2, 0.3, 0.4, 0.5 the loop records 0.4 for
  the 50th percentile: at index 2 the rank is 40, below 50, and at index 3 it is 60.
\<close>

theorem percentile_50_of_five:
  "pctls ! 2 = 50 \<and>
   fst (percentiles [Fin (1/10), Fin (2/10), Fin (3/10), Fin (4/10), Fin (5/10)]) ! 2
     = Fin (4/10)"
  by (simp add: pctls_def percentiles_def pct_loop.simps)

text \<open>
  Claim C8: the second loop of \<open>printLatencies\<close> prints the line of a target exactly
  when the value in \<open>data\<close> for it is greater than 0. A target for which a latency
  of exactly 0 was recorded has no line, as a target for which nothing was recorded.
\<close>

theorem zero_percentile_not_printed:
  assumes "j < length pctls"
  shows "(Printf pct_fmt [AInt (int (pctls ! j)), AFloat v] \<in> set (printLatencies r))
         = (v = fst (percentiles (Lats r)) ! j \<and> fgt v (Fin 0))"
proof -
  have "\<And>i. i < length pctls \<Longrightarrow> int (pctls ! j) = int (pctls ! i) \<Longrightarrow> i = j"
    using assms distinct_pctls by (simp add: nth_eq_iff_index_eq)
  then show ?thesis
    using assms unfolding in_printLatencies by blast
qed

theorem zero_percentile_not_printed_witness:
  "0 < length pctls
   \<and> 0 < snd (percentiles [Fin 0, Fin 0, Fin 0, Fin 0, Fin 0, Fin 0, Fin 0, Fin 0, Fin 0, Fin 0])
   \<and> Printf pct_fmt [AInt (int (pctls ! 0)), AFloat (Fin 0)]
       \<notin> set (printLatencies ((newReport 0 [] [])
            \<lparr>Lats := [Fin 0, Fin 0, Fin 0, Fin 0, Fin 0, Fin 0, Fin 0, Fin 0, Fin 0, Fin 0]\<rparr>))"
proof -
  have h: "0 < length pctls"
    by (simp add: pctls_def)
  have "0 < snd (percentiles [Fin 0, Fin 0, Fin 0, Fin 0, Fin 0, Fin 0, Fin 0, Fin 0, Fin 0, Fin 0])"
    by (simp add: percentiles_def pctls_def pct_loop.simps)
  then show ?thesis
    using h zero_percentile_not_printed [OF h, of "Fin 0" "(newReport 0 [] [])
            \<lparr>Lats := [Fin 0, Fin 0, Fin 0, Fin 0, Fin 0, Fin 0, Fin 0, Fin 0, Fin 0, Fin 0]\<rparr>"]
    by simp
qed

text \<open>
  Claim C9: for a list of N latencies with 1 \<le> N < 100, the rank \<open>i * 100 / N\<close> of every
  index is at most 98, the loop stops with the target 99 not reached and its entry of
  \<open>data\<close> still 0, and no line for 99% is printed.
\<close>

theorem no_99th_percentile_below_100:
  assumes "1 \<le> length (Lats r)" and "length (Lats r) < 100"
  shows "(\<forall>i<length (Lats r). i * 100 div length (Lats r) \<le> 98)
         \<and> snd (percentiles (Lats r)) \<le> 6
         \<and> fst (percentiles (Lats r)) ! 6 = Fin 0
         \<and> (\<forall>v. Printf pct_fmt [AInt 99, AFloat v] \<notin> set (printLatencies r))"
proof -
  have a: "\<forall>i<length (Lats r). i * 100 div length (Lats r) \<le> 98"
    using assms(2) by (simp add: rank_below_99)
  have b: "snd (percentiles (Lats r)) \<le> 6 \<and> fst (percentiles (Lats r)) ! 6 = Fin 0"
    using pct_loop_last_target[OF assms(2), of 0 0 "replicate (length pctls) (Fin 0)"]
    by (simp add: percentiles_def length_pctls)
  have p: "pctls ! 6 = 99" by (simp add: pctls_def)
  have "\<not> (Printf pct_fmt [AInt 99, AFloat v] \<in> set (printLatencies r))" for v
  proof
    assume "Printf pct_fmt [AInt 99, AFloat v] \<in> set (printLatencies r)"
    then obtain i where i: "i < length pctls" "(99::int) = int (pctls ! i)"
        "v = fst (percentiles (Lats r)) ! i" "fgt v (Fin 0)"
      unfolding in_printLatencies by blast
    have "pctls ! i = pctls ! 6" using i(2) p by simp
    then have "i = 6"
      using i(1) distinct_pctls by (simp add: nth_eq_iff_index_eq length_pctls)
    then show False using i(3,4) b by simp
  qed
  then show ?thesis using a b by blast
qed

theorem no_99th_percentile_below_100_witness:
  "1 \<le> length [Fin (1/10), Fin (2/10), Fin (3/10)]
   \<and> length [Fin (1/10), Fin (2/10), Fin (3/10)] < 100
   \<and> fst (percentiles [Fin (1/10), Fin (2/10), Fin (3/10)]) ! 6 = Fin 0
   \<and> Printf pct_fmt [AInt 99, AFloat (Fin (3/10))]
       \<notin> set (printLatencies ((newReport 0 [] [])\<lparr>Lats := [Fin (1/10), Fin (2/10), Fin (3/10)]\<rparr>))"
proof -
  let ?r = "(newReport 0 [] [])\<lparr>Lats := [Fin (1/10), Fin (2/10), Fin (3/10)]\<rparr>"
  have h: "1 \<le> length (Lats ?r)" "length (Lats ?r) < 100"
    by simp_all
  show ?thesis
    using no_99th_percentile_below_100 [OF h] by simp
qed

section \<open>Properties of the histogram\<close>

text \<open>
  The loop of \<open>printHistogram\<close> returns from every state in which the last edge is not
  exceeded by any of the samples that remain, whatever the other edges are: the result
  does not depend on how the interior edges are rounded.
\<close>

lemma last_nth: "k < length xs \<Longrightarrow> last xs = xs ! (length xs - 1)"
  by (cases "xs = []") (simp_all add: last_conv_nth)

lemma hist_loop_returns:
  assumes "bi < length buckets" and "length counts = length buckets"
    and "\<forall>k<length lats. i \<le> k \<longrightarrow> fle (lats ! k) (last buckets)"
  shows "\<exists>cs m. hist_loop lats buckets i bi counts mx = Some (cs, m)
           \<and> length cs = length counts
           \<and> sum_list cs = sum_list counts + (length lats - i)"
  using assms
proof (induction "(length lats - i) + (length buckets - 1 - bi)"
    arbitrary: i bi counts mx rule: less_induct)
  case less
  show ?case
  proof (cases "i < length lats")
    case False
    then show ?thesis by (subst hist_loop.simps) simp
  next
    case inside: True
    show ?thesis
    proof (cases "fle (lats ! i) (buckets ! bi)")
      case True
      define counts1 where "counts1 = counts[bi := counts ! bi + 1]"
      define mx1 where "mx1 = (if mx < counts1 ! bi then counts1 ! bi else mx)"
      have len1: "length counts1 = length buckets"
        using less.prems by (simp add: counts1_def)
      have sum1: "sum_list counts1 = sum_list counts + 1"
        using less.prems by (simp add: counts1_def sum_list_update)
      have "\<exists>cs m. hist_loop lats buckets (i + 1) bi counts1 mx1 = Some (cs, m)
           \<and> length cs = length counts1
           \<and> sum_list cs = sum_list counts1 + (length lats - (i + 1))"
        using less.prems inside len1 by (intro less.hyps) auto
      moreover have "hist_loop lats buckets i bi counts mx
          = hist_loop lats buckets (i + 1) bi counts1 mx1"
        using inside True by (subst hist_loop.simps) (simp add: counts1_def mx1_def Let_def)
      ultimately show ?thesis
        using inside sum1 len1 less.prems by auto
    next
      case exceeds: False
      have "buckets ! bi \<noteq> last buckets"
        using exceeds less.prems(3) inside by auto
      then have bi: "bi < length buckets - 1"
        using less.prems(1) last_nth[of bi buckets] by (cases "bi = length buckets - 1") auto
      have "\<exists>cs m. hist_loop lats buckets i (bi + 1) counts mx = Some (cs, m)
           \<and> length cs = length counts
           \<and> sum_list cs = sum_list counts + (length lats - i)"
        using less.prems inside bi by (intro less.hyps) auto
      moreover have "hist_loop lats buckets i bi counts mx
          = hist_loop lats buckets i (bi + 1) counts mx"
        using inside exceeds bi by (subst hist_loop.simps) simp
      ultimately show ?thesis by simp
    qed
  qed
qed

lemma fle_key: "x \<noteq> NaN \<Longrightarrow> y \<noteq> NaN \<Longrightarrow> fle x y = (f64_key x \<le> f64_key y)"
  by (cases x; cases y) auto

lemma Float64s_last_max:
  assumes "x \<in> set xs" and "NaN \<notin> set xs"
  shows "fle x (last (Float64s xs))"
proof -
  let ?ys = "Float64s xs"
  have s: "sorted (map f64_key ?ys)" by (simp add: Float64s_def)
  have set: "set ?ys = set xs" by (simp add: Float64s_def)
  have ne: "?ys \<noteq> []" using assms(1) set by auto
  from assms(1) set obtain k where k: "k < length ?ys" "?ys ! k = x"
    by (metis in_set_conv_nth)
  have "f64_key (?ys ! k) \<le> f64_key (?ys ! (length ?ys - 1))"
    using sorted_nth_mono[OF s, of k "length ?ys - 1"] k(1) by simp
  then have "f64_key x \<le> f64_key (last ?ys)"
    using k(2) ne by (simp add: last_conv_nth)
  moreover have "last ?ys \<in> set xs" using ne set last_in_set by blast
  ultimately show ?thesis using assms by (subst fle_key) auto
qed

lemma sorted_last_max:
  assumes "sorted_wrt fle lats" "NaN \<notin> set lats" "k < length lats"
  shows "fle (lats ! k) (last lats)"
proof (cases "k = length lats - 1")
  case True
  then have "lats ! k = last lats" using assms(3) last_nth[of k lats] by simp
  moreover have "last lats \<noteq> NaN" using assms(2,3) by (metis last_in_set list.size(3) not_less_zero)
  ultimately show ?thesis by (cases "last lats") auto
next
  case False
  then have "fle (lats ! k) (lats ! (length lats - 1))"
    using assms(3) sorted_wrt_nth_less[OF assms(1), of k "length lats - 1"] by simp
  then show ?thesis using assms(3) last_nth[of k lats] by simp
qed

lemma length_hist_buckets: "length (hist_buckets f s) = 11"
  by (simp add: hist_buckets_def)

lemma last_hist_buckets: "last (hist_buckets f s) = s"
  by (simp add: hist_buckets_def)

lemma length_Float64s: "length (Float64s xs) = length xs"
  by (simp add: Float64s_def)

lemma set_Float64s: "set (Float64s xs) = set xs"
  by (simp add: Float64s_def)

lemma Lats_prepared: "Lats (set_extremes (sort_lats r)) = Float64s (Lats r)"
  by (simp add: set_extremes_def sort_lats_def Let_def)

lemma Slowest_prepared:
  "Lats r \<noteq> [] \<Longrightarrow> Slowest (set_extremes (sort_lats r)) = last (Float64s (Lats r))"
proof -
  assume "Lats r \<noteq> []"
  then have "Float64s (Lats r) \<noteq> []"
    using length_Float64s[of "Lats r"] by (metis length_0_conv)
  then show ?thesis
    by (simp add: set_extremes_def sort_lats_def Let_def last_conv_nth)
qed

text \<open>
  Claim C3: for every non-empty list of latencies, the histogram that \<open>print\<close> computes
  (the latencies sorted, \<open>Fastest\<close> and \<open>Slowest\<close> set from them, 11 edges of which the
  last is \<open>Slowest\<close>, the sorted samples assigned by the cursor) has bucket counts whose
  sum is the number of latencies. A latency is a value of \<open>Duration.Seconds()\<close>, never
  NaN.
\<close>

theorem histogram_counts_sum:
  assumes "Lats r \<noteq> []" and "NaN \<notin> set (Lats r)"
  shows "\<exists>bs cs m. histogram (set_extremes (sort_lats r)) = Some (bs, cs, m)
           \<and> length bs = 11 \<and> last bs = last (Float64s (Lats r))
           \<and> length cs = 11 \<and> sum_list cs = length (Lats r)"
proof -
  let ?r = "set_extremes (sort_lats r)"
  let ?bs = "hist_buckets (Fastest ?r) (Slowest ?r)"
  have lb: "last ?bs = last (Float64s (Lats r))"
    using assms(1) by (simp add: last_hist_buckets Slowest_prepared)
  have "\<forall>k<length (Lats ?r). 0 \<le> k \<longrightarrow> fle (Lats ?r ! k) (last ?bs)"
    using assms(2) by (simp add: lb Lats_prepared Float64s_last_max set_Float64s del: fle.simps)
       (metis Float64s_last_max nth_mem set_Float64s)
  then obtain cs m where
    "hist_loop (Lats ?r) ?bs 0 0 (replicate (length ?bs) 0) 0 = Some (cs, m)"
    "length cs = length (replicate (length ?bs) (0::nat))"
    "sum_list cs = sum_list (replicate (length ?bs) (0::nat)) + (length (Lats ?r) - 0)"
    using hist_loop_returns[of 0 ?bs "replicate (length ?bs) 0" "Lats ?r" 0 0]
    by (auto simp: length_hist_buckets)
  then show ?thesis
    using lb by (simp add: histogram_def Let_def length_hist_buckets Lats_prepared length_Float64s)
qed

theorem histogram_counts_sum_witness:
  "[Fin (3/10), Fin (1/10), Fin (2/10)] \<noteq> []
   \<and> NaN \<notin> set [Fin (3/10), Fin (1/10), Fin (2/10)]
   \<and> (\<exists>bs cs m. histogram (set_extremes (sort_lats
       ((newReport 0 [] [])\<lparr>Lats := [Fin (3/10), Fin (1/10), Fin (2/10)]\<rparr>))) = Some (bs, cs, m)
     \<and> sum_list cs = 3)"
proof -
  let ?r = "(newReport 0 [] [])\<lparr>Lats := [Fin (3/10), Fin (1/10), Fin (2/10)]\<rparr>"
  have h: "Lats ?r \<noteq> []" "NaN \<notin> set (Lats ?r)"
    by simp_all
  show ?thesis
    using histogram_counts_sum [OF h] by auto
qed

text \<open>
  Claim C10: the assignment loop of the histogram terminates for every non-empty sorted
  list of latencies whose maximum is the last edge, from every state of the loop, and
  counts each of the samples that remain exactly once.
\<close>

theorem hist_loop_total:
  assumes "lats \<noteq> []" and "sorted_wrt fle lats" and "NaN \<notin> set lats"
    and "bi < length buckets" and "length counts = length buckets"
    and "last buckets = last lats"
  shows "\<exists>cs m. hist_loop lats buckets i bi counts mx = Some (cs, m)
           \<and> sum_list cs = sum_list counts + (length lats - i)"
proof -
  have "\<forall>k<length lats. i \<le> k \<longrightarrow> fle (lats ! k) (last buckets)"
    using assms(2,3,6) sorted_last_max by simp
  then show ?thesis
    using hist_loop_returns[OF assms(4,5), of lats i mx] by blast
qed

theorem hist_loop_total_witness:
  "sorted_wrt fle [Fin (1/10), Fin (2/10), Fin (3/10)]
   \<and> NaN \<notin> set [Fin (1/10), Fin (2/10), Fin (3/10)]
   \<and> last (hist_buckets (Fin (1/10)) (Fin (3/10))) = last [Fin (1/10), Fin (2/10), Fin (3/10)]
   \<and> (\<exists>cs m. hist_loop [Fin (1/10), Fin (2/10), Fin (3/10)]
         (hist_buckets (Fin (1/10)) (Fin (3/10))) 0 0 (replicate 11 0) 0 = Some (cs, m)
       \<and> sum_list cs = 3)"
proof -
  let ?lats = "[Fin (1/10), Fin (2/10), Fin (3/10)]"
  let ?bs = "hist_buckets (Fin (1/10)) (Fin (3/10))"
  have h: "?lats \<noteq> []" "sorted_wrt fle ?lats" "NaN \<notin> set ?lats"
    "0 < length ?bs" "length (replicate 11 (0::nat)) = length ?bs" "last ?bs = last ?lats"
    by (simp_all add: hist_buckets_def)
  show ?thesis
    using h hist_loop_total [OF h, of 0 0] by (simp add: sum_list_replicate numeral_3_eq_3)
qed

section \<open>Properties of the report\<close>

lemma sort_lats_empty: "Lats r = [] \<Longrightarrow> sort_lats r = r"
  by (cases r) (simp add: sort_lats_def Float64s_def)

text \<open>
  Claim C4: in CSV mode, for every report, \<open>print\<close> writes one line for each latency
  and nothing else (no header): line \<open>i\<close>, counted from 1, is written with the format
  \<open>%v,%4.4f\<close> from the index \<open>i\<close> and the \<open>i\<close>-th latency of the sorted slice, which is
  a permutation of the latencies in the order of \<open>sort.Float64s\<close>.
\<close>

theorem csv_lines:
  assumes "output' r = ''csv''"
  shows "\<exists>r' out. print kc ke r = Some (r', out)
           \<and> length out = length (Lats r)
           \<and> (\<forall>i<length (Lats r). out ! i
                 = Printf ''%v,%4.4f\<newline>'' [AInt (int i + 1), AFloat (Float64s (Lats r) ! i)])
           \<and> sorted (map f64_key (Float64s (Lats r)))
           \<and> mset (Float64s (Lats r)) = mset (Lats r)"
proof -
  have "print kc ke r = Some (sort_lats r, printCSV (sort_lats r))"
    using assms by (simp add: print_def Let_def sort_lats_def)
  moreover have "length (printCSV (sort_lats r)) = length (Lats r)"
    by (simp add: printCSV_def sort_lats_def length_Float64s)
  moreover have "\<forall>i<length (Lats r). printCSV (sort_lats r) ! i
      = Printf ''%v,%4.4f\<newline>'' [AInt (int i + 1), AFloat (Float64s (Lats r) ! i)]"
    by (simp add: printCSV_def sort_lats_def length_Float64s csv_fmt_def)
  moreover have "sorted (map f64_key (Float64s (Lats r)))"
    by (simp add: Float64s_def)
  moreover have "mset (Float64s (Lats r)) = mset (Lats r)"
    by (simp add: Float64s_def)
  ultimately show ?thesis by blast
qed

theorem csv_lines_witness:
  "output' ((newReport 0 [] ''csv'')\<lparr>Lats := [Fin (3/10), Fin (1/10)]\<rparr>) = ''csv''
   \<and> (\<exists>r' out. print [] [] ((newReport 0 [] ''csv'')\<lparr>Lats := [Fin (3/10), Fin (1/10)]\<rparr>)
          = Some (r', out)
        \<and> length out = 2
        \<and> out ! 0 = Printf ''%v,%4.4f\<newline>'' [AInt 1, AFloat (Fin (1/10))]
        \<and> out ! 1 = Printf ''%v,%4.4f\<newline>'' [AInt 2, AFloat (Fin (3/10))])"
proof -
  let ?r = "(newReport 0 [] ''csv'')\<lparr>Lats := [Fin (3/10), Fin (1/10)]\<rparr>"
  have h: "output' ?r = ''csv''"
    by (simp add: newReport_def)
  have s: "Float64s (Lats ?r) = [Fin (1/10), Fin (3/10)]"
    by (simp add: Float64s_def)
  from csv_lines [OF h, of "[]" "[]"] obtain r' out where
    p: "print [] [] ?r = Some (r', out)" "length out = length (Lats ?r)"
      "\<forall>i<length (Lats ?r). out ! i
          = Printf ''%v,%4.4f\<newline>'' [AInt (int i + 1), AFloat (Float64s (Lats ?r) ! i)]"
    by blast
  have "out ! 0 = Printf ''%v,%4.4f\<newline>'' [AInt 1, AFloat (Fin (1/10))]"
    using p(3) s by simp
  moreover have "out ! 1 = Printf ''%v,%4.4f\<newline>'' [AInt 2, AFloat (Fin (3/10))]"
    using p(3) s by simp
  ultimately show ?thesis
    using h p(1,2) by simp
qed

text \<open>
  Claim C6: for every report with no latency and at least one error, \<open>print\<close> in the
  default mode writes the heading of the error distribution and one line, count and
  description, for each key of \<open>Errors\<close> in the order \<open>ke\<close> in which \<open>range\<close> visits them,
  and nothing else: no summary, status codes, histogram or percentiles.
\<close>

theorem all_failed_prints_errors_only:
  assumes "output' r = []" and "Lats r = []" and "0 < len_map (Errors r)"
    and "distinct ke" and "set ke = fset (fmdom (Errors r))"
  shows "print kc ke r =
           Some (r, Printf ''\<newline>Error distribution:\<newline>'' [] #
                    map (\<lambda>e. Printf (''  [%d]'' @ [CHR 0x09] @ ''%s\<newline>'')
                                 [AInt (lookup0 (Errors r) e), AStr e]) ke)
         \<and> length ke = len_map (Errors r)"
proof -
  have "length ke = len_map (Errors r)"
    using assms(4,5) by (simp add: len_map_def fcard.rep_eq distinct_card[symmetric])
  moreover have "print kc ke r = Some (r, printErrors ke r)"
    using assms(1,2,3) by (simp add: print_def sort_lats_empty Let_def)
  ultimately show ?thesis
    by (simp add: printErrors_def error_fmt_def tab_def)
qed

theorem all_failed_prints_errors_only_witness:
  "output' ((newReport 0 [] [])\<lparr>Errors := fmupd ''timeout'' 2 fmempty\<rparr>) = []
   \<and> Lats ((newReport 0 [] [])\<lparr>Errors := fmupd ''timeout'' 2 fmempty\<rparr>) = []
   \<and> 0 < len_map (Errors ((newReport 0 [] [])\<lparr>Errors := fmupd ''timeout'' 2 fmempty\<rparr>))
   \<and> print [] [''timeout''] ((newReport 0 [] [])\<lparr>Errors := fmupd ''timeout'' 2 fmempty\<rparr>)
     = Some ((newReport 0 [] [])\<lparr>Errors := fmupd ''timeout'' 2 fmempty\<rparr>,
             [Printf ''\<newline>Error distribution:\<newline>'' [],
              Printf (''  [%d]'' @ [CHR 0x09] @ ''%s\<newline>'') [AInt 2, AStr ''timeout'']])"
proof -
  let ?r = "(newReport 0 [] [])\<lparr>Errors := fmupd ''timeout'' 2 fmempty\<rparr>"
  have h: "output' ?r = []" "Lats ?r = []" "0 < len_map (Errors ?r)"
    "distinct [''timeout'']" "set [''timeout''] = fset (fmdom (Errors ?r))"
    by (simp_all add: newReport_def len_map_def fcard.rep_eq)
  show ?thesis
    using h(1,2,3) all_failed_prints_errors_only [OF h, of "[]"] by (simp add: lookup0_def)
qed

lemma Seconds_zero: "Seconds 0 = Fin 0"
  by (simp add: Seconds_def)

lemma receive_success_nonneg: "0 \<le> snd st \<Longrightarrow> 0 \<le> snd (receive res st)"
  by (cases st) (simp add: receive_def Let_def split: option.splits)

lemma drain_success_nonneg: "0 \<le> snd st \<Longrightarrow> 0 \<le> snd (drain rs st)"
  by (induction rs arbitrary: st) (simp_all add: receive_success_nonneg)

lemma derive_fields:
  "Lats (derive tot (r, c)) = Lats r"
  "RPS (derive tot (r, c)) = fdiv (Fin (of_nat (length (Lats r)))) (Seconds tot)"
  "SuccessRPS (derive tot (r, c)) = fdiv (Fin (of_int c)) (Seconds tot)"
  by (simp_all add: derive_def Let_def)

text \<open>
  Claim C5, as the spec states it: with a total duration of zero the computation of
  \<open>RPS\<close> and \<open>SuccessRPS\<close> is guarded, and they are reported as zero or left out. For one
  result of status 200 and a total of zero both fields are \<open>+Inf\<close>, and the sixth call
  of \<open>Printf\<close> writes the line \<open>Requests/sec\<close> with \<open>+Inf\<close>.
\<close>

theorem zero_total_rps_counterexample:
  "RPS (collect 0 (newReport 1
      [\<lparr>err = None, statusCode = 200, duration = 50000000, contentLength = 0\<rparr>] [])) = PInf
   \<and> SuccessRPS (collect 0 (newReport 1
      [\<lparr>err = None, statusCode = 200, duration = 50000000, contentLength = 0\<rparr>] [])) = PInf
   \<and> map_option (drop 5 \<circ> take 6 \<circ> snd) (finalize [200] [] 0 (newReport 1
      [\<lparr>err = None, statusCode = 200, duration = 50000000, contentLength = 0\<rparr>] []))
     = Some [Printf (''  Requests/sec:'' @ [CHR 0x09] @ ''%4.4f\<newline>'') [AFloat PInf]]"
  by (simp add: finalize_def collect_def collected_def derive_def newReport_def receive_def
      print_def sort_lats_def set_extremes_def Float64s_def printHistogram_def histogram_def
      hist_buckets_def fsub_def hist_loop.simps summary_def rps_fmt_def tab_def
      incr_def lookup0_def len_map_def Seconds_def word_sless_alt upt_rec Let_def)

text \<open>
  Claim C5, amended: with a total duration of zero, \<open>RPS\<close> and \<open>SuccessRPS\<close> are the
  results of a division by zero that nothing guards: \<open>RPS\<close> is \<open>+Inf\<close> when there is a
  latency and NaN when there is none; \<open>SuccessRPS\<close> is \<open>+Inf\<close> when \<open>successCnt\<close> is
  positive and NaN when it is 0.
\<close>

theorem zero_total_rps:
  "RPS (collect 0 r) = (if Lats (collect 0 r) = [] then NaN else PInf)
   \<and> SuccessRPS (collect 0 r) = (if snd (collected r) = 0 then NaN else PInf)"
proof -
  obtain r1 c where rc: "collected r = (r1, c)"
    by (cases "collected r")
  have "0 \<le> snd (collected r)"
    unfolding collected_def by (rule drain_success_nonneg) simp
  then have c: "0 \<le> c"
    using rc by simp
  have "RPS (collect 0 r) = (if Lats (collect 0 r) = [] then NaN else PInf)"
    by (simp add: collect_def rc derive_fields Seconds_zero)
  moreover have "SuccessRPS (collect 0 r) = (if c = 0 then NaN else PInf)"
    using c by (simp add: collect_def rc derive_fields Seconds_zero)
  ultimately show ?thesis
    using rc by simp
qed

theorem zero_total_rps_witness:
  "RPS (collect 0 (newReport 2
      [\<lparr>err = None, statusCode = 404, duration = 50000000, contentLength = 0\<rparr>,
       \<lparr>err = Some ''timeout'', statusCode = 0, duration = 0, contentLength = 0\<rparr>] [])) = PInf
   \<and> SuccessRPS (collect 0 (newReport 2
      [\<lparr>err = None, statusCode = 404, duration = 50000000, contentLength = 0\<rparr>,
       \<lparr>err = Some ''timeout'', statusCode = 0, duration = 0, contentLength = 0\<rparr>] [])) = NaN"
  using zero_total_rps [of "newReport 2
      [\<lparr>err = None, statusCode = 404, duration = 50000000, contentLength = 0\<rparr>,
       \<lparr>err = Some ''timeout'', statusCode = 0, duration = 0, contentLength = 0\<rparr>] []"]
  by (simp add: collect_def collected_def derive_def newReport_def receive_def Let_def)

subsection \<open>Every run returns\<close>

text \<open>
  The latencies that \<open>finalize\<close> collects into a new report are values of
  \<open>Duration.Seconds()\<close>, so none is NaN, and the loop of \<open>printHistogram\<close> ends in every
  run: \<open>finalize\<close> returns.
\<close>

lemma receive_lats_set:
  "set (Lats (fst (receive res st))) \<subseteq> set (Lats (fst st)) \<union> range Seconds"
  by (cases st) (auto simp: receive_def Let_def split: option.splits)

lemma drain_lats_set:
  "set (Lats (fst (drain rs st))) \<subseteq> set (Lats (fst st)) \<union> range Seconds"
proof (induction rs arbitrary: st)
  case Nil
  show ?case by simp
next
  case (Cons res rs)
  show ?case
    using Cons.IH[of "receive res st"] receive_lats_set[of res st] by auto
qed

lemma collect_no_NaN: "NaN \<notin> set (Lats (collect tot (newReport sz rs outp)))"
proof -
  obtain r1 c where rc: "collected (newReport sz rs outp) = (r1, c)"
    by (cases "collected (newReport sz rs outp)")
  have "set (Lats r1) \<subseteq> range Seconds"
    using drain_lats_set[of rs "(newReport sz rs outp, 0)"] rc
    by (simp add: collected_def newReport_def)
  moreover have "NaN \<notin> range Seconds"
    by (auto simp: Seconds_def)
  ultimately show ?thesis
    by (auto simp: collect_def rc derive_fields(1))
qed

lemma printHistogram_returns:
  assumes "Lats r \<noteq> []" and "NaN \<notin> set (Lats r)"
  shows "\<exists>h. printHistogram (set_extremes (sort_lats r)) = Some h"
proof -
  let ?r = "set_extremes (sort_lats r)"
  let ?bs = "hist_buckets (Fastest ?r) (Slowest ?r)"
  have "\<forall>k<length (Lats ?r). 0 \<le> k \<longrightarrow> fle (Lats ?r ! k) (last ?bs)"
    using assms
    by (metis Float64s_last_max Lats_prepared Slowest_prepared last_hist_buckets nth_mem
        set_Float64s)
  then obtain cs m where
    "hist_loop (Lats ?r) ?bs 0 0 (replicate (length ?bs) 0) 0 = Some (cs, m)"
    using hist_loop_returns[of 0 ?bs "replicate (length ?bs) 0" "Lats ?r" 0 0]
    by (auto simp: length_hist_buckets)
  then show ?thesis
    by (simp add: printHistogram_def histogram_def Let_def)
qed

lemma print_returns:
  assumes "NaN \<notin> set (Lats r)"
  shows "\<exists>r' out. print kc ke r = Some (r', out)"
proof (cases "Lats r = []")
  case True
  then show ?thesis
    by (simp add: print_def Let_def sort_lats_def Float64s_def)
next
  case False
  then have ne: "Lats (sort_lats r) \<noteq> []"
    using length_Float64s[of "Lats r"] by (auto simp: sort_lats_def)
  obtain h where "printHistogram (set_extremes (sort_lats r)) = Some h"
    using printHistogram_returns[OF False assms] by blast
  then show ?thesis
    using ne by (simp add: print_def Let_def)
qed

lemma finalize_returns:
  "\<exists>r' out. finalize kc ke tot (newReport sz rs outp) = Some (r', out)"
  unfolding finalize_def by (rule print_returns) (rule collect_no_NaN)

end
